theory Spec2Isabelle
  imports Main
begin

section \<open>Data model\<close>

text \<open>
  The driver keeps, per simulated device, one YAML file holding a dictionary from port
  address to stored value. Port addresses and stored values are Python strings; the
  dictionary is modelled as the list of its items in iteration order, with
  \<open>dict_get\<close>, \<open>dict_set\<close> and \<open>dict_pop\<close> doing what \<open>mappings.get(k)\<close>,
  \<open>mappings[k] = v\<close> and \<open>mappings.pop(k, None)\<close> do: assignment to a present key
  keeps its position, a new key is appended.  A Python dictionary never holds a key
  twice; \<open>wf_mappings\<close> states it.  Only the list comprehension of \<open>map_clear\<close>
  observes the order of the items.
\<close>

type_synonym port = string

type_synonym mappings = "(port \<times> string) list"

definition dict_get :: "mappings \<Rightarrow> port \<Rightarrow> string option" where
  "dict_get m k = map_of m k"

fun dict_set :: "port \<Rightarrow> string \<Rightarrow> mappings \<Rightarrow> mappings" where
  "dict_set k v [] = [(k, v)]"
| "dict_set k v ((k', v') # m) = (if k' = k then (k, v) # m else (k', v') # dict_set k v m)"

definition dict_pop :: "port \<Rightarrow> mappings \<Rightarrow> mappings" where
  "dict_pop k m = filter (\<lambda>(k', v'). k' \<noteq> k) m"

definition wf_mappings :: "mappings \<Rightarrow> bool" where
  "wf_mappings m = distinct (map fst m)"

text \<open>
  Every failure of the source is a value.  \<open>Exception msg\<close> is the \<open>raise Exception(msg)\<close>
  of \<open>_check_exception\<close> and \<open>_check_mapping_exist\<close>; \<open>ValueError\<close> is what
  \<open>randint\<close> raises on an empty range; \<open>LockFailed\<close> and \<open>NotLocked\<close> are raised by
  the lock of the \<open>lockfile\<close> package; \<open>IOError\<close> and \<open>YAMLError\<close> are raised by
  \<open>open\<close> and \<open>yaml.load\<close>.
\<close>

datatype error = Exception string | ValueError | LockFailed | NotLocked | IOError | YAMLError

text \<open>
  What a transaction finds at the path that \<open>login\<close> derived from the device
  address: no file, a file without a document (\<open>yaml.load\<close> returns \<open>None\<close>), a
  file that \<open>yaml.load\<close> rejects, or a file holding a dictionary.  \<open>lock_usable\<close>
  tells whether \<open>LockFile.acquire()\<close> returns (it is called without a timeout: it
  raises only when the lock file cannot be created).
\<close>

datatype file_content = Missing | Empty | Malformed | Stored mappings

record world =
  mappings_file :: file_content
  lock_usable :: bool

text \<open>
  The runtime configuration read by \<open>__init__\<close>: the bounds of the simulated delay,
  in whole seconds and not negative, and the override switch.
\<close>

record config =
  delay_min :: nat
  delay_max :: nat
  override_mapping :: bool

section \<open>Strings\<close>

text \<open>
  \<open>str.lower()\<close> and the test \<open>sub in s\<close>.  Strings are byte lists; only the letters
  \<open>A\<close> to \<open>Z\<close> are mapped, which decides the search for the ASCII word
  \<open>except\<close> as the source does: no other character lowers to one of its letters.
\<close>

definition lower_char :: "char \<Rightarrow> char" where
  "lower_char c =
     (let n = (of_char c :: nat) in if 65 \<le> n \<and> n \<le> 90 then char_of (n + 32) else c)"

definition lower :: "string \<Rightarrow> string" where
  "lower s = map lower_char s"

fun startswith :: "string \<Rightarrow> string \<Rightarrow> bool" where
  "startswith s [] = True"
| "startswith [] (p # ps) = False"
| "startswith (c # cs) (p # ps) = (c = p \<and> startswith cs ps)"

fun str_in :: "string \<Rightarrow> string \<Rightarrow> bool" where
  "str_in sub [] = (sub = [])"
| "str_in sub (c # cs) = (startswith (c # cs) sub \<or> str_in sub cs)"

section \<open>The driver commands\<close>

definition EXCEPTION :: string where
  "EXCEPTION = ''except''"

text \<open>
  \<open>_check_exception\<close>: \<open>data = mappings.get(port)\<close>, and
  \<open>if data and EXCEPTION in data.lower(): raise Exception(data)\<close>.
  The result is the exception raised, if any.
\<close>

definition check_exception :: "port \<Rightarrow> mappings \<Rightarrow> error option" where
  "check_exception port m =
     (case dict_get m port of
        None \<Rightarrow> None
      | Some data \<Rightarrow>
          if data \<noteq> [] \<and> str_in EXCEPTION (lower data) then Some (Exception data) else None)"

text \<open>
  \<open>_check_mapping_exist\<close>, with the message it formats.
\<close>

definition conflict_message :: "string \<Rightarrow> port \<Rightarrow> string" where
  "conflict_message act_src dst =
     ''DST port already used in '' @ act_src @ ''->'' @ dst @ '', override mapping is not allowed.''"

definition check_mapping_exist :: "bool \<Rightarrow> port \<Rightarrow> port \<Rightarrow> mappings \<Rightarrow> error option" where
  "check_mapping_exist override src dst m =
     (if \<not> override then
        (case dict_get m dst of
           None \<Rightarrow> None
         | Some act_src \<Rightarrow>
             if act_src \<noteq> [] \<and> act_src \<noteq> src
             then Some (Exception (conflict_message act_src dst)) else None)
      else None)"

text \<open>
  The bodies of the \<open>with\<close> blocks.  A body mutates the dictionary in place and may
  raise in the middle: it returns the exception raised, if any, together with the
  dictionary as it is at that moment.
\<close>

type_synonym outcome = "error option \<times> mappings"

definition map_bidi_body :: "bool \<Rightarrow> port \<Rightarrow> port \<Rightarrow> mappings \<Rightarrow> outcome" where
  "map_bidi_body override src_port dst_port m =
     (case check_exception src_port m of Some e \<Rightarrow> (Some e, m) | None \<Rightarrow>
      case check_exception dst_port m of Some e \<Rightarrow> (Some e, m) | None \<Rightarrow>
      case check_mapping_exist override src_port dst_port m of Some e \<Rightarrow> (Some e, m) | None \<Rightarrow>
      case check_mapping_exist override dst_port src_port m of Some e \<Rightarrow> (Some e, m) | None \<Rightarrow>
      (None, dict_set dst_port src_port (dict_set src_port dst_port m)))"

fun map_uni_loop :: "bool \<Rightarrow> port \<Rightarrow> port list \<Rightarrow> mappings \<Rightarrow> outcome" where
  "map_uni_loop override src_port [] m = (None, m)"
| "map_uni_loop override src_port (dst_port # dst_ports) m =
     (case check_exception dst_port m of Some e \<Rightarrow> (Some e, m) | None \<Rightarrow>
      case check_mapping_exist override src_port dst_port m of Some e \<Rightarrow> (Some e, m) | None \<Rightarrow>
      map_uni_loop override src_port dst_ports (dict_set dst_port src_port m))"

definition map_uni_body :: "bool \<Rightarrow> port \<Rightarrow> port list \<Rightarrow> mappings \<Rightarrow> outcome" where
  "map_uni_body override src_port dst_ports m =
     (case check_exception src_port m of Some e \<Rightarrow> (Some e, m) | None \<Rightarrow>
      map_uni_loop override src_port dst_ports m)"

text \<open>\<open>_del_mappings\<close>: for each port, the exception check, then \<open>pop\<close>.\<close>

fun del_mappings :: "port list \<Rightarrow> mappings \<Rightarrow> outcome" where
  "del_mappings [] m = (None, m)"
| "del_mappings (port # ports) m =
     (case check_exception port m of Some e \<Rightarrow> (Some e, m) | None \<Rightarrow>
      del_mappings ports (dict_pop port m))"

text \<open>
  \<open>map_clear\<close> collects, for each port in turn, the keys of the items whose key or
  value is that port, then deletes them.
\<close>

definition clear_keys :: "port list \<Rightarrow> mappings \<Rightarrow> port list" where
  "clear_keys ports m =
     concat (map (\<lambda>port. map fst (filter (\<lambda>(k, v). v = port \<or> k = port) m)) ports)"

definition map_clear_body :: "port list \<Rightarrow> mappings \<Rightarrow> outcome" where
  "map_clear_body ports m = del_mappings (clear_keys ports m) m"

definition map_clear_to_body :: "port \<Rightarrow> port list \<Rightarrow> mappings \<Rightarrow> outcome" where
  "map_clear_to_body src_port dst_ports m =
     (case check_exception src_port m of Some e \<Rightarrow> (Some e, m) | None \<Rightarrow>
      del_mappings (filter (\<lambda>dst_port. dict_get m dst_port = Some src_port) dst_ports) m)"

section \<open>The transaction manager\<close>

text \<open>
  \<open>MappingTransManager.__enter__\<close>.  The \<open>try\<close> block acquires the lock, then reads
  and parses the file; either step may raise.  The \<open>finally\<close> block replaces a missing
  or empty result by the empty dictionary and executes \<open>return\<close>, which discards an
  exception in flight.
\<close>

definition enter_try :: "world \<Rightarrow> error + mappings option" where
  "enter_try w =
     (if \<not> lock_usable w then Inl LockFailed
      else case mappings_file w of
             Missing \<Rightarrow> Inl IOError
           | Malformed \<Rightarrow> Inl YAMLError
           | Empty \<Rightarrow> Inr None
           | Stored m \<Rightarrow> Inr (Some m))"

definition trans_enter :: "world \<Rightarrow> mappings" where
  "trans_enter w = (case enter_try w of Inr (Some m) \<Rightarrow> m | Inr None \<Rightarrow> [] | Inl e \<Rightarrow> [])"

text \<open>
  \<open>MappingTransManager.__exit__\<close> ignores the exception information it is given:
  it dumps the dictionary, writes the file (the path is taken to be writable), then
  releases the lock.  Releasing a lock that was not acquired raises.  The result is the
  exception raised by the release, if any, and the world after the write.
\<close>

definition trans_exit :: "mappings \<Rightarrow> world \<Rightarrow> error option \<times> world" where
  "trans_exit m w =
     (if lock_usable w then None else Some NotLocked, w\<lparr>mappings_file := Stored m\<rparr>)"

text \<open>
  \<open>with MappingTransManager(file) as mappings: body\<close>.  An exception of the body
  propagates after \<open>__exit__\<close> has run, unless \<open>__exit__\<close> raises itself.
\<close>

definition with_trans :: "(mappings \<Rightarrow> outcome) \<Rightarrow> world \<Rightarrow> (error + unit) \<times> world" where
  "with_trans body w =
     (case body (trans_enter w) of (raised, m) \<Rightarrow>
      case trans_exit m w of (exit_raised, w') \<Rightarrow>
        (case exit_raised of
           Some e \<Rightarrow> Inl e
         | None \<Rightarrow> (case raised of Some e \<Rightarrow> Inl e | None \<Rightarrow> Inr ()),
         w'))"

text \<open>
  \<open>_delay\<close>: \<open>randint(delay_min, delay_max)\<close> raises on an empty range; otherwise the
  command sleeps and goes on.
\<close>

definition delay :: "config \<Rightarrow> error option" where
  "delay cfg = (if delay_min cfg \<le> delay_max cfg then None else Some ValueError)"

definition command :: "config \<Rightarrow> (mappings \<Rightarrow> outcome) \<Rightarrow> world \<Rightarrow> (error + unit) \<times> world" where
  "command cfg body w =
     (case delay cfg of Some e \<Rightarrow> (Inl e, w) | None \<Rightarrow> with_trans body w)"

definition map_bidi :: "config \<Rightarrow> port \<Rightarrow> port \<Rightarrow> world \<Rightarrow> (error + unit) \<times> world" where
  "map_bidi cfg src_port dst_port w =
     command cfg (map_bidi_body (override_mapping cfg) src_port dst_port) w"

definition map_uni :: "config \<Rightarrow> port \<Rightarrow> port list \<Rightarrow> world \<Rightarrow> (error + unit) \<times> world" where
  "map_uni cfg src_port dst_ports w =
     command cfg (map_uni_body (override_mapping cfg) src_port dst_ports) w"

definition map_clear :: "config \<Rightarrow> port list \<Rightarrow> world \<Rightarrow> (error + unit) \<times> world" where
  "map_clear cfg ports w = command cfg (map_clear_body ports) w"

definition map_clear_to :: "config \<Rightarrow> port \<Rightarrow> port list \<Rightarrow> world \<Rightarrow> (error + unit) \<times> world" where
  "map_clear_to cfg src_port dst_ports w =
     command cfg (map_clear_to_body src_port dst_ports) w"

definition map_tap :: "config \<Rightarrow> port \<Rightarrow> port list \<Rightarrow> world \<Rightarrow> (error + unit) \<times> world" where
  "map_tap cfg src_port dst_ports w = map_uni cfg src_port dst_ports w"

section \<open>Reading the state\<close>

text \<open>
  The Mapping Set a world persists is what the next transaction loads from its file,
  read as a map from port to stored value: the order in which the file lists its
  entries (\<open>yaml.dump\<close> writes them by key) is not part of it.  A port is
  exception-marked when its stored value carries the marker word, that is when the
  exception check raises for it.  \<open>operational\<close> is the normal run of a command: the
  delay range is not empty and the lock can be acquired.
\<close>

definition loaded :: "file_content \<Rightarrow> mappings" where
  "loaded f = (case f of Stored m \<Rightarrow> m | Missing \<Rightarrow> [] | Empty \<Rightarrow> [] | Malformed \<Rightarrow> [])"

definition mapping_set :: "world \<Rightarrow> port \<Rightarrow> string option" where
  "mapping_set w = map_of (loaded (mappings_file w))"

definition has_marker :: "string \<Rightarrow> bool" where
  "has_marker v = str_in EXCEPTION (lower v)"

definition marked :: "world \<Rightarrow> port \<Rightarrow> bool" where
  "marked w p = (case mapping_set w p of None \<Rightarrow> False | Some v \<Rightarrow> has_marker v)"

definition operational :: "config \<Rightarrow> world \<Rightarrow> bool" where
  "operational cfg w = (delay_min cfg \<le> delay_max cfg \<and> lock_usable w)"

section \<open>Basic facts\<close>

subsection \<open>Dictionaries\<close>

lemma dict_get_set: "dict_get (dict_set k v m) k' = (if k' = k then Some v else dict_get m k')"
  by (induction m) (auto simp: dict_get_def)

lemma dict_get_pop: "dict_get (dict_pop k m) k' = (if k' = k then None else dict_get m k')"
  by (induction m) (auto simp: dict_get_def dict_pop_def)

lemma dict_set_same: "dict_get m k = Some v \<Longrightarrow> dict_set k v m = m"
  by (induction m) (auto simp: dict_get_def)

lemma dict_set_new: "dict_get m k = None \<Longrightarrow> dict_set k v m = m @ [(k, v)]"
  by (induction m) (auto simp: dict_get_def)

lemma dict_get_items: "dict_get m k = Some v \<Longrightarrow> (k, v) \<in> set m"
  by (simp add: dict_get_def map_of_SomeD)

lemma dict_items_get: "wf_mappings m \<Longrightarrow> (k, v) \<in> set m \<Longrightarrow> dict_get m k = Some v"
  by (simp add: dict_get_def wf_mappings_def)

subsection \<open>Substring search\<close>

lemma startswith_iff: "startswith s p \<longleftrightarrow> (\<exists>post. s = p @ post)"
  by (induction s p rule: startswith.induct) auto

lemma str_in_iff: "str_in sub s \<longleftrightarrow> (\<exists>pre post. s = pre @ sub @ post)"
proof (induction s)
  case Nil
  then show ?case by auto
next
  case (Cons c cs)
  show ?case
  proof
    assume "str_in sub (c # cs)"
    then consider "startswith (c # cs) sub" | "str_in sub cs" by auto
    then show "\<exists>pre post. c # cs = pre @ sub @ post"
    proof cases
      case 1
      then obtain post where "c # cs = sub @ post" by (auto simp: startswith_iff)
      then have "c # cs = [] @ sub @ post" by simp
      then show ?thesis by blast
    next
      case 2
      then obtain pre post where "cs = pre @ sub @ post" using Cons.IH by blast
      then have "c # cs = (c # pre) @ sub @ post" by simp
      then show ?thesis by blast
    qed
  next
    assume "\<exists>pre post. c # cs = pre @ sub @ post"
    then obtain pre post where eq: "c # cs = pre @ sub @ post" by blast
    show "str_in sub (c # cs)"
    proof (cases pre)
      case Nil
      with eq have "startswith (c # cs) sub" by (auto simp: startswith_iff)
      then show ?thesis by simp
    next
      case (Cons a pre')
      with eq have "cs = pre' @ sub @ post" by simp
      then have "str_in sub cs" using Cons.IH by blast
      then show ?thesis by simp
    qed
  qed
qed

lemma has_marker_nonempty: "has_marker v \<Longrightarrow> v \<noteq> []"
  by (auto simp: has_marker_def EXCEPTION_def lower_def)

subsection \<open>The checks\<close>

lemma check_exception_eq:
  "check_exception p m =
     (case dict_get m p of None \<Rightarrow> None
      | Some v \<Rightarrow> if has_marker v then Some (Exception v) else None)"
  using has_marker_nonempty
  by (auto simp: check_exception_def has_marker_def split: option.splits)

lemma check_exception_marked:
  "dict_get m p = Some v \<Longrightarrow> has_marker v \<Longrightarrow> check_exception p m = Some (Exception v)"
  by (simp add: check_exception_eq)

lemma check_exception_SomeD:
  "check_exception p m = Some e \<Longrightarrow> \<exists>v. e = Exception v \<and> dict_get m p = Some v \<and> has_marker v"
  by (auto simp: check_exception_eq split: option.splits if_splits)

subsection \<open>Transactions\<close>

lemma trans_enter_usable: "lock_usable w \<Longrightarrow> trans_enter w = loaded (mappings_file w)"
  by (simp add: trans_enter_def enter_try_def loaded_def split: file_content.splits)

lemma command_operational:
  "operational cfg w \<Longrightarrow>
   command cfg body w =
     (case fst (body (loaded (mappings_file w))) of Some e \<Rightarrow> Inl e | None \<Rightarrow> Inr (),
      w\<lparr>mappings_file := Stored (snd (body (loaded (mappings_file w))))\<rparr>)"
  by (simp add: operational_def command_def delay_def with_trans_def trans_exit_def
      trans_enter_usable split: prod.splits)

lemma mapping_set_stored [simp]:
  "mapping_set (w\<lparr>mappings_file := Stored m\<rparr>) = dict_get m"
  by (auto simp: mapping_set_def loaded_def dict_get_def)

lemma loaded_stored [simp]: "loaded (Stored m) = m"
  by (simp add: loaded_def)

lemma mapping_set_get: "mapping_set w = dict_get (loaded (mappings_file w))"
  by (auto simp: mapping_set_def dict_get_def)

subsection \<open>The loop of \<open>map_uni\<close>\<close>

lemma uni_loop_blocked:
  assumes "dict_get m p = Some v" and "has_marker v" and "p \<in> set ds"
  shows "fst (map_uni_loop ov src ds m) \<noteq> None \<and>
         dict_get (snd (map_uni_loop ov src ds m)) p = Some v"
  using assms
proof (induction ds arbitrary: m)
  case Nil
  then show ?case by simp
next
  case (Cons d ds)
  show ?case
  proof (cases "d = p")
    case True
    with Cons.prems show ?thesis by (simp add: check_exception_marked)
  next
    case False
    with Cons.prems have "dict_get (dict_set d src m) p = Some v" and "p \<in> set ds"
      by (simp_all add: dict_get_set)
    from Cons.IH [OF this(1) Cons.prems(2) this(2)] Cons.prems(1)
    show ?thesis by (simp split: option.splits)
  qed
qed

lemma uni_loop_override_error:
  "fst (map_uni_loop True src ds m) = Some e \<Longrightarrow> \<exists>t. e = Exception t \<and> has_marker t"
proof (induction ds arbitrary: m)
  case Nil
  then show ?case by simp
next
  case (Cons d ds)
  then show ?case
    by (auto simp: check_mapping_exist_def split: option.splits dest: check_exception_SomeD)
qed

lemma uni_loop_conflict:
  assumes "dict_get m dst = Some src1" and "src1 \<noteq> []" and "src1 \<noteq> src2" and "dst \<in> set ds"
  shows "fst (map_uni_loop False src2 ds m) \<noteq> None \<and>
         dict_get (snd (map_uni_loop False src2 ds m)) dst = Some src1"
  using assms
proof (induction ds arbitrary: m)
  case Nil
  then show ?case by simp
next
  case (Cons d ds)
  show ?case
  proof (cases "d = dst")
    case True
    with Cons.prems show ?thesis
      by (simp add: check_mapping_exist_def split: option.splits)
  next
    case False
    with Cons.prems have "dict_get (dict_set d src2 m) dst = Some src1" and "dst \<in> set ds"
      by (simp_all add: dict_get_set)
    from Cons.IH [OF this(1) Cons.prems(2,3) this(2)] Cons.prems(1)
    show ?thesis by (simp split: option.splits)
  qed
qed

subsection \<open>Deleting\<close>

lemma del_error:
  "fst (del_mappings ps m) = Some e \<Longrightarrow> \<exists>t. e = Exception t \<and> has_marker t"
  by (induction ps arbitrary: m) (auto split: option.splits dest: check_exception_SomeD)

lemma del_keeps_marked:
  assumes "dict_get m p = Some v" and "has_marker v"
  shows "dict_get (snd (del_mappings ps m)) p = Some v"
  using assms
proof (induction ps arbitrary: m)
  case Nil
  then show ?case by simp
next
  case (Cons q ps)
  show ?case
  proof (cases "check_exception q m")
    case None
    with Cons.prems have "q \<noteq> p" by (auto simp: check_exception_eq)
    with Cons.prems have "dict_get (dict_pop q m) p = Some v" by (simp add: dict_get_pop)
    from Cons.IH [OF this Cons.prems(2)] None show ?thesis by simp
  next
    case (Some e)
    with Cons.prems show ?thesis by simp
  qed
qed

lemma del_blocked:
  assumes "dict_get m p = Some v" and "has_marker v" and "p \<in> set ps"
  shows "fst (del_mappings ps m) \<noteq> None"
  using assms
proof (induction ps arbitrary: m)
  case Nil
  then show ?case by simp
next
  case (Cons q ps)
  show ?case
  proof (cases "check_exception q m")
    case None
    with Cons.prems have "q \<noteq> p" by (auto simp: check_exception_eq)
    with Cons.prems have "dict_get (dict_pop q m) p = Some v" and "p \<in> set ps"
      by (simp_all add: dict_get_pop)
    from Cons.IH [OF this(1) Cons.prems(2) this(2)] None show ?thesis by simp
  next
    case (Some e)
    then show ?thesis by simp
  qed
qed

lemma del_done:
  "fst (del_mappings ps m) = None \<Longrightarrow>
   snd (del_mappings ps m) = filter (\<lambda>(k, v). k \<notin> set ps) m"
proof (induction ps arbitrary: m)
  case Nil
  then show ?case by simp
next
  case (Cons q ps)
  from Cons.prems have ok: "check_exception q m = None"
    and rest: "fst (del_mappings ps (dict_pop q m)) = None"
    by (auto split: option.splits)
  have "snd (del_mappings (q # ps) m) = filter (\<lambda>(k, v). k \<notin> set ps) (dict_pop q m)"
    using ok Cons.IH [OF rest] by simp
  also have "\<dots> = filter (\<lambda>(k, v). k \<notin> set (q # ps)) m"
    by (auto simp: dict_pop_def intro: filter_cong)
  finally show ?case .
qed

lemma del_unmarked:
  "(\<And>q v. q \<in> set ps \<Longrightarrow> dict_get m q = Some v \<Longrightarrow> \<not> has_marker v) \<Longrightarrow>
   fst (del_mappings ps m) = None"
proof (induction ps arbitrary: m)
  case Nil
  then show ?case by simp
next
  case (Cons q ps)
  have ok: "check_exception q m = None"
    using Cons.prems [of q] by (auto simp: check_exception_eq split: option.splits)
  have "fst (del_mappings ps (dict_pop q m)) = None"
  proof (rule Cons.IH)
    fix r v assume "r \<in> set ps" and "dict_get (dict_pop q m) r = Some v"
    then show "\<not> has_marker v"
      using Cons.prems [of r v] by (auto simp: dict_get_pop split: if_splits)
  qed
  with ok show ?case by simp
qed

lemma dict_get_filter_keys:
  "dict_get (filter (\<lambda>(k, v). k \<notin> K) m) k = (if k \<in> K then None else dict_get m k)"
  by (induction m) (auto simp: dict_get_def)

lemma dict_get_append:
  "dict_get (m @ [(k, v)]) k' =
     (case dict_get m k' of Some x \<Rightarrow> Some x | None \<Rightarrow> if k' = k then Some v else None)"
  by (induction m) (auto simp: dict_get_def)

lemma has_marker_iff: "has_marker v \<longleftrightarrow> (\<exists>pre post. lower v = pre @ ''except'' @ post)"
  by (simp add: has_marker_def EXCEPTION_def str_in_iff)

subsection \<open>Collecting the keys of \<open>map_clear\<close>\<close>

lemma clear_keys_iff:
  "k \<in> set (clear_keys ports m) \<longleftrightarrow> (\<exists>v. (k, v) \<in> set m \<and> (v \<in> set ports \<or> k \<in> set ports))"
  by (force simp: clear_keys_def)

lemma map_clear_body_done:
  assumes "fst (map_clear_body ports m) = None"
  shows "dict_get (snd (map_clear_body ports m)) k =
           (if k \<in> set (clear_keys ports m) then None else dict_get m k)"
proof -
  from assms have "snd (map_clear_body ports m) =
      filter (\<lambda>(k, v). k \<notin> set (clear_keys ports m)) m"
    unfolding map_clear_body_def by (rule del_done)
  then show ?thesis by (simp only: dict_get_filter_keys)
qed

subsection \<open>The body of \<open>map_bidi\<close>\<close>

lemma bidi_body_cases:
  "map_bidi_body ov src dst m = (None, dict_set dst src (dict_set src dst m)) \<or>
   (\<exists>e. map_bidi_body ov src dst m = (Some e, m))"
  by (auto simp: map_bidi_body_def split: option.splits)

lemma bidi_body_ok:
  assumes "check_exception src m = None" and "check_exception dst m = None"
    and "check_mapping_exist ov src dst m = None" and "check_mapping_exist ov dst src m = None"
  shows "map_bidi_body ov src dst m = (None, dict_set dst src (dict_set src dst m))"
  using assms by (simp add: map_bidi_body_def)

lemma bidi_body_again:
  assumes "\<not> has_marker src" and "\<not> has_marker dst"
  shows "map_bidi_body ov src dst (snd (map_bidi_body ov src dst m)) = map_bidi_body ov src dst m"
proof -
  define m1 where "m1 = dict_set dst src (dict_set src dst m)"
  have s: "dict_get m1 src = Some dst" and d: "dict_get m1 dst = Some src"
    by (auto simp: m1_def dict_get_set)
  have "map_bidi_body ov src dst m1 = (None, dict_set dst src (dict_set src dst m1))"
    using assms s d
    by (intro bidi_body_ok) (simp_all add: check_exception_eq check_mapping_exist_def)
  also have "dict_set src dst m1 = m1"
    using s by (rule dict_set_same)
  also have "dict_set dst src m1 = m1"
    using d by (rule dict_set_same)
  finally have "map_bidi_body ov src dst m1 = (None, m1)" .
  with bidi_body_cases [of ov src dst m] show ?thesis
    by (auto simp: m1_def)
qed

subsection \<open>Commands in normal operation\<close>

lemma body_fst_run:
  "operational cfg w \<Longrightarrow>
   fst (command cfg body w) =
     (case fst (body (loaded (mappings_file w))) of Some e \<Rightarrow> Inl e | None \<Rightarrow> Inr ())"
  by (simp add: command_operational)

lemma body_snd_run:
  "operational cfg w \<Longrightarrow>
   mapping_set (snd (command cfg body w)) = dict_get (snd (body (loaded (mappings_file w))))"
  by (simp add: command_operational)

subsection \<open>Commands on an exception-marked port\<close>

lemma same_file:
  "operational cfg w \<Longrightarrow> body (loaded (mappings_file w)) = (Some e, loaded (mappings_file w)) \<Longrightarrow>
   command cfg body w = (Inl e, w\<lparr>mappings_file := Stored (loaded (mappings_file w))\<rparr>)"
  by (simp add: command_operational)

lemma blocked_bidi_src:
  assumes "operational cfg w" and "mapping_set w p = Some text" and "has_marker text"
  shows "map_bidi cfg p dst w =
           (Inl (Exception text), w\<lparr>mappings_file := Stored (loaded (mappings_file w))\<rparr>)"
  unfolding map_bidi_def using assms
  by (intro same_file) (simp_all add: map_bidi_body_def mapping_set_get check_exception_marked)

lemma blocked_bidi_dst:
  assumes "operational cfg w" and "mapping_set w p = Some text" and "has_marker text"
  shows "\<exists>t. map_bidi cfg src p w =
             (Inl (Exception t), w\<lparr>mappings_file := Stored (loaded (mappings_file w))\<rparr>)
           \<and> has_marker t \<and> (mapping_set w src = Some t \<or> mapping_set w p = Some t)"
proof (cases "check_exception src (loaded (mappings_file w))")
  case None
  with assms have "map_bidi cfg src p w =
      (Inl (Exception text), w\<lparr>mappings_file := Stored (loaded (mappings_file w))\<rparr>)"
    unfolding map_bidi_def
    by (intro same_file) (simp_all add: map_bidi_body_def mapping_set_get check_exception_marked)
  with assms show ?thesis by blast
next
  case (Some e)
  then obtain t where t: "e = Exception t" "mapping_set w src = Some t" "has_marker t"
    by (auto simp: mapping_set_get dest: check_exception_SomeD)
  from assms(1) Some have "map_bidi cfg src p w =
      (Inl e, w\<lparr>mappings_file := Stored (loaded (mappings_file w))\<rparr>)"
    unfolding map_bidi_def
    by (intro same_file) (simp_all add: map_bidi_body_def)
  with t show ?thesis by blast
qed

lemma blocked_uni_src:
  assumes "operational cfg w" and "mapping_set w p = Some text" and "has_marker text"
  shows "map_uni cfg p dsts w =
           (Inl (Exception text), w\<lparr>mappings_file := Stored (loaded (mappings_file w))\<rparr>)"
  unfolding map_uni_def using assms
  by (intro same_file) (simp_all add: map_uni_body_def mapping_set_get check_exception_marked)

lemma blocked_clear_to_src:
  assumes "operational cfg w" and "mapping_set w p = Some text" and "has_marker text"
  shows "map_clear_to cfg p dsts w =
           (Inl (Exception text), w\<lparr>mappings_file := Stored (loaded (mappings_file w))\<rparr>)"
  unfolding map_clear_to_def using assms
  by (intro same_file)
    (simp_all add: map_clear_to_body_def mapping_set_get check_exception_marked)

lemma blocked_uni_dst:
  assumes "operational cfg w" and "mapping_set w p = Some text" and "has_marker text"
    and "p \<in> set dsts"
  shows "(\<exists>e. fst (map_uni cfg src dsts w) = Inl e)
       \<and> mapping_set (snd (map_uni cfg src dsts w)) p = Some text
       \<and> (override_mapping cfg \<longrightarrow>
            (\<exists>t. fst (map_uni cfg src dsts w) = Inl (Exception t) \<and> has_marker t))"
proof -
  define m where "m = loaded (mappings_file w)"
  define out where "out = map_uni_body (override_mapping cfg) src dsts m"
  from assms(2) have held: "dict_get m p = Some text"
    by (simp add: m_def mapping_set_get)
  have fails: "fst out \<noteq> None" and keeps: "dict_get (snd out) p = Some text"
    using uni_loop_blocked [OF held assms(3,4), of "override_mapping cfg" src] held
    by (auto simp: out_def map_uni_body_def split: option.splits)
  have kind: "\<exists>t. e = Exception t \<and> has_marker t"
    if "override_mapping cfg" and "fst out = Some e" for e
    using that uni_loop_override_error [of src dsts m e]
    by (auto simp: out_def map_uni_body_def split: option.splits dest: check_exception_SomeD)
  have r: "fst (map_uni cfg src dsts w) = (case fst out of Some e \<Rightarrow> Inl e | None \<Rightarrow> Inr ())"
    and s: "mapping_set (snd (map_uni cfg src dsts w)) = dict_get (snd out)"
    by (simp_all add: map_uni_def body_fst_run [OF assms(1)] body_snd_run [OF assms(1)]
        out_def m_def)
  from fails obtain e where e: "fst out = Some e" by blast
  with r s keeps kind [of e] show ?thesis by auto
qed

lemma blocked_clear:
  assumes "operational cfg w" and "mapping_set w p = Some text" and "has_marker text"
    and "p \<in> set ports"
  shows "(\<exists>t. fst (map_clear cfg ports w) = Inl (Exception t) \<and> has_marker t)
       \<and> mapping_set (snd (map_clear cfg ports w)) p = Some text"
proof -
  define m where "m = loaded (mappings_file w)"
  define out where "out = map_clear_body ports m"
  from assms(2) have held: "dict_get m p = Some text"
    by (simp add: m_def mapping_set_get)
  then have "(p, text) \<in> set m" by (rule dict_get_items)
  with assms(4) have "p \<in> set (clear_keys ports m)"
    by (auto simp: clear_keys_iff)
  with held assms(3) have "fst out \<noteq> None"
    unfolding out_def map_clear_body_def by (intro del_blocked)
  then obtain e where e: "fst out = Some e" by blast
  then obtain t where t: "e = Exception t" "has_marker t"
    unfolding out_def map_clear_body_def by (blast dest: del_error)
  have keeps: "dict_get (snd out) p = Some text"
    unfolding out_def map_clear_body_def using held assms(3) by (rule del_keeps_marked)
  have r: "fst (map_clear cfg ports w) = (case fst out of Some e \<Rightarrow> Inl e | None \<Rightarrow> Inr ())"
    and s: "mapping_set (snd (map_clear cfg ports w)) = dict_get (snd out)"
    by (simp_all add: map_clear_def body_fst_run [OF assms(1)] body_snd_run [OF assms(1)]
        out_def m_def)
  from r s e t keeps show ?thesis by simp
qed


lemma blocked_clear_to_dst:
  assumes "operational cfg w" and "mapping_set w p = Some text" and "has_marker text"
    and "p \<in> set dsts"
  shows "\<exists>t. fst (map_clear_to cfg text dsts w) = Inl (Exception t) \<and> has_marker t"
proof -
  define m where "m = loaded (mappings_file w)"
  define out where "out = map_clear_to_body text dsts m"
  from assms(2) have held: "dict_get m p = Some text"
    by (simp add: m_def mapping_set_get)
  with assms(4) have "p \<in> set (filter (\<lambda>d. dict_get m d = Some text) dsts)"
    by simp
  with held assms(3) have "fst (del_mappings (filter (\<lambda>d. dict_get m d = Some text) dsts) m) \<noteq> None"
    by (intro del_blocked)
  then have "\<exists>t. fst out = Some (Exception t) \<and> has_marker t"
    by (auto simp: out_def map_clear_to_body_def split: option.splits
        dest: check_exception_SomeD del_error)
  moreover have "fst (map_clear_to cfg text dsts w) =
      (case fst out of Some e \<Rightarrow> Inl e | None \<Rightarrow> Inr ())"
    by (simp add: map_clear_to_def body_fst_run [OF assms(1)] out_def m_def)
  ultimately show ?thesis by auto
qed

subsection \<open>Two layouts of one dictionary\<close>

lemma check_exception_layout:
  "dict_get m = dict_get m' \<Longrightarrow> check_exception p m = check_exception p m'"
  by (simp add: check_exception_def)

lemma check_mapping_exist_layout:
  "dict_get m = dict_get m' \<Longrightarrow> check_mapping_exist ov s d m = check_mapping_exist ov s d m'"
  by (simp add: check_mapping_exist_def)

lemma dict_set_layout:
  "dict_get m = dict_get m' \<Longrightarrow> dict_get (dict_set k v m) = dict_get (dict_set k v m')"
  by (rule ext) (simp add: dict_get_set)

lemma bidi_body_layout:
  assumes "dict_get m = dict_get m'"
  shows "fst (map_bidi_body ov s d m) = fst (map_bidi_body ov s d m')
       \<and> dict_get (snd (map_bidi_body ov s d m)) = dict_get (snd (map_bidi_body ov s d m'))"
proof -
  have "dict_get (dict_set d s (dict_set s d m)) = dict_get (dict_set d s (dict_set s d m'))"
    using assms by (intro dict_set_layout)
  then show ?thesis
    using assms
    by (simp add: map_bidi_body_def check_exception_layout [OF assms]
        check_mapping_exist_layout [OF assms] split: option.splits)
qed

lemma clear_unmarked:
  assumes "\<And>k v. dict_get m k = Some v \<Longrightarrow> \<not> has_marker v"
  shows "fst (map_clear_body ports m) = None"
  unfolding map_clear_body_def using assms by (intro del_unmarked) blast

lemma clear_removes:
  assumes "fst (map_clear_body ports m) = None"
    and "dict_get (snd (map_clear_body ports m)) k = Some v"
  shows "k \<notin> set ports \<and> v \<notin> set ports \<and> dict_get m k = Some v"
proof -
  from assms have out: "k \<notin> set (clear_keys ports m)" and held: "dict_get m k = Some v"
    by (auto simp: map_clear_body_done split: if_splits)
  from held have "(k, v) \<in> set m" by (rule dict_get_items)
  with out held show ?thesis by (auto simp: clear_keys_iff)
qed

subsection \<open>What a command can change\<close>








section \<open>The claims\<close>




text \<open>
  C2. A lock that cannot be acquired: the \<open>try\<close> block of \<open>__enter__\<close> raises
  \<open>LockFailed\<close> before the file is read, the \<open>return\<close> of its \<open>finally\<close> block
  discards the exception and hands the body the empty dictionary, and \<open>__exit__\<close>
  writes what the body made of it over the file, before the release of the lock that was
  never held raises.
\<close>

theorem lock_failure_is_swallowed:
  "enter_try \<lparr>mappings_file = Stored [(''X'', ''Y'')], lock_usable = False\<rparr> = Inl LockFailed
   \<and> trans_enter \<lparr>mappings_file = Stored [(''X'', ''Y'')], lock_usable = False\<rparr> = []
   \<and> map_bidi \<lparr>delay_min = 0, delay_max = 0, override_mapping = True\<rparr> ''A'' ''B''
       \<lparr>mappings_file = Stored [(''X'', ''Y'')], lock_usable = False\<rparr>
     = (Inl NotLocked,
        \<lparr>mappings_file = Stored [(''A'', ''B''), (''B'', ''A'')], lock_usable = False\<rparr>)"
  by code_simp

text \<open>
  C3. Let the store hold \<open>dst -> src1\<close> with \<open>src1\<close> free of the marker word, and
  let \<open>src2\<close> differ from \<open>src1\<close> and not be exception-marked.  With override
  disabled and \<open>src1\<close> not the empty string, \<open>map_bidi(src2, dst)\<close> and
  \<open>map_uni(src2, [dst])\<close> raise the conflict message for \<open>src1 -> dst\<close> and leave the
  persisted Mapping Set as it was; a \<open>map_uni(src2, dsts)\<close> with \<open>dst\<close> anywhere in
  \<open>dsts\<close> fails and keeps \<open>dst -> src1\<close>.  With override enabled both calls succeed
  and the store holds \<open>dst -> src2\<close>.
\<close>

theorem override_policy:
  assumes "operational cfg w" and "mapping_set w dst = Some src1" and "\<not> has_marker src1"
    and "src2 \<noteq> src1" and "\<not> marked w src2"
  shows "(\<not> override_mapping cfg \<and> src1 \<noteq> [] \<longrightarrow>
            fst (map_bidi cfg src2 dst w) = Inl (Exception (conflict_message src1 dst))
          \<and> mapping_set (snd (map_bidi cfg src2 dst w)) = mapping_set w
          \<and> fst (map_uni cfg src2 [dst] w) = Inl (Exception (conflict_message src1 dst))
          \<and> mapping_set (snd (map_uni cfg src2 [dst] w)) = mapping_set w
          \<and> (dst \<in> set dsts \<longrightarrow>
               (\<exists>e. fst (map_uni cfg src2 dsts w) = Inl e)
             \<and> mapping_set (snd (map_uni cfg src2 dsts w)) dst = Some src1))
       \<and> (override_mapping cfg \<longrightarrow>
            fst (map_bidi cfg src2 dst w) = Inr ()
          \<and> mapping_set (snd (map_bidi cfg src2 dst w)) dst = Some src2
          \<and> fst (map_uni cfg src2 [dst] w) = Inr ()
          \<and> mapping_set (snd (map_uni cfg src2 [dst] w)) dst = Some src2)"
proof -
  define m where "m = loaded (mappings_file w)"
  from assms(2) have held: "dict_get m dst = Some src1"
    by (simp add: m_def mapping_set_get)
  with assms(3) have cd: "check_exception dst m = None"
    by (simp add: check_exception_eq)
  from assms(5) have cs: "check_exception src2 m = None"
    by (auto simp: m_def marked_def mapping_set_get check_exception_eq split: option.splits)
  have off: "fst (map_bidi cfg src2 dst w) = Inl (Exception (conflict_message src1 dst))
      \<and> mapping_set (snd (map_bidi cfg src2 dst w)) = mapping_set w
      \<and> fst (map_uni cfg src2 [dst] w) = Inl (Exception (conflict_message src1 dst))
      \<and> mapping_set (snd (map_uni cfg src2 [dst] w)) = mapping_set w
      \<and> (dst \<in> set dsts \<longrightarrow>
           (\<exists>e. fst (map_uni cfg src2 dsts w) = Inl e)
         \<and> mapping_set (snd (map_uni cfg src2 dsts w)) dst = Some src1)"
    if no: "\<not> override_mapping cfg" and ne: "src1 \<noteq> []"
  proof -
    from held ne assms(4) no
    have cm: "check_mapping_exist (override_mapping cfg) src2 dst m =
        Some (Exception (conflict_message src1 dst))"
      by (auto simp: check_mapping_exist_def)
    have bidi: "map_bidi_body (override_mapping cfg) src2 dst m =
        (Some (Exception (conflict_message src1 dst)), m)"
      by (simp add: map_bidi_body_def cs cd cm)
    have uni: "map_uni_body (override_mapping cfg) src2 [dst] m =
        (Some (Exception (conflict_message src1 dst)), m)"
      by (simp add: map_uni_body_def cs cd cm)
    have many: "(\<exists>e. fst (map_uni cfg src2 dsts w) = Inl e)
        \<and> mapping_set (snd (map_uni cfg src2 dsts w)) dst = Some src1"
      if "dst \<in> set dsts"
    proof -
      from uni_loop_conflict [OF held ne assms(4) [symmetric] that] no
      have "fst (map_uni_body (override_mapping cfg) src2 dsts m) \<noteq> None"
        and "dict_get (snd (map_uni_body (override_mapping cfg) src2 dsts m)) dst = Some src1"
        by (simp_all add: map_uni_body_def cs)
      then show ?thesis
        by (auto simp: map_uni_def body_fst_run [OF assms(1)] body_snd_run [OF assms(1)]
            m_def [symmetric])
    qed
    from bidi uni many show ?thesis
      by (simp add: map_bidi_def map_uni_def body_fst_run [OF assms(1)]
          body_snd_run [OF assms(1)] m_def [symmetric])
        (simp add: m_def mapping_set_get)
  qed
  have on: "fst (map_bidi cfg src2 dst w) = Inr ()
      \<and> mapping_set (snd (map_bidi cfg src2 dst w)) dst = Some src2
      \<and> fst (map_uni cfg src2 [dst] w) = Inr ()
      \<and> mapping_set (snd (map_uni cfg src2 [dst] w)) dst = Some src2"
    if yes: "override_mapping cfg"
  proof -
    have bidi: "map_bidi_body (override_mapping cfg) src2 dst m =
        (None, dict_set dst src2 (dict_set src2 dst m))"
      using yes by (simp add: bidi_body_ok cs cd check_mapping_exist_def)
    have uni: "map_uni_body (override_mapping cfg) src2 [dst] m = (None, dict_set dst src2 m)"
      using yes by (simp add: map_uni_body_def cs cd check_mapping_exist_def)
    from bidi uni show ?thesis
      by (simp add: map_bidi_def map_uni_def command_operational [OF assms(1)]
          m_def [symmetric] dict_get_set)
  qed
  from off on show ?thesis by blast
qed

theorem override_policy_witness:
  "operational \<lparr>delay_min = 0, delay_max = 0, override_mapping = False\<rparr>
     \<lparr>mappings_file = Stored [(''D'', ''S1'')], lock_usable = True\<rparr>
   \<and> mapping_set \<lparr>mappings_file = Stored [(''D'', ''S1'')], lock_usable = True\<rparr> ''D'' = Some ''S1''
   \<and> \<not> has_marker ''S1'' \<and> ''S2'' \<noteq> ''S1''
   \<and> \<not> marked \<lparr>mappings_file = Stored [(''D'', ''S1'')], lock_usable = True\<rparr> ''S2''
   \<and> fst (map_bidi \<lparr>delay_min = 0, delay_max = 0, override_mapping = False\<rparr> ''S2'' ''D''
       \<lparr>mappings_file = Stored [(''D'', ''S1'')], lock_usable = True\<rparr>)
     = Inl (Exception ''DST port already used in S1->D, override mapping is not allowed.'')
   \<and> mapping_set (snd (map_bidi \<lparr>delay_min = 0, delay_max = 0, override_mapping = False\<rparr>
       ''S2'' ''D'' \<lparr>mappings_file = Stored [(''D'', ''S1'')], lock_usable = True\<rparr>)) ''D''
     = Some ''S1''
   \<and> fst (map_bidi \<lparr>delay_min = 0, delay_max = 0, override_mapping = True\<rparr> ''S2'' ''D''
       \<lparr>mappings_file = Stored [(''D'', ''S1'')], lock_usable = True\<rparr>) = Inr ()
   \<and> mapping_set (snd (map_bidi \<lparr>delay_min = 0, delay_max = 0, override_mapping = True\<rparr>
       ''S2'' ''D'' \<lparr>mappings_file = Stored [(''D'', ''S1'')], lock_usable = True\<rparr>)) ''D''
     = Some ''S2''"
proof -
  let ?off = "\<lparr>delay_min = 0, delay_max = 0, override_mapping = False\<rparr>"
  let ?on = "\<lparr>delay_min = 0, delay_max = 0, override_mapping = True\<rparr>"
  let ?w = "\<lparr>mappings_file = Stored [(''D'', ''S1'')], lock_usable = True\<rparr>"
  have op: "operational ?off ?w" and op': "operational ?on ?w"
    by (simp_all add: operational_def)
  have held: "mapping_set ?w ''D'' = Some ''S1''"
    by (simp add: mapping_set_def)
  have nm: "\<not> has_marker ''S1''"
    by (simp add: has_marker_def EXCEPTION_def lower_def lower_char_def)
  have ne: "''S2'' \<noteq> ''S1''"
    by simp
  have um: "\<not> marked ?w ''S2''"
    by (simp add: marked_def mapping_set_def)
  from override_policy [OF op held nm ne um, where dsts = "[]"]
  have a: "fst (map_bidi ?off ''S2'' ''D'' ?w) = Inl (Exception (conflict_message ''S1'' ''D''))"
    and b: "mapping_set (snd (map_bidi ?off ''S2'' ''D'' ?w)) = mapping_set ?w"
    by simp_all
  from override_policy [OF op' held nm ne um, where dsts = "[]"]
  have c: "fst (map_bidi ?on ''S2'' ''D'' ?w) = Inr ()"
    and d: "mapping_set (snd (map_bidi ?on ''S2'' ''D'' ?w)) ''D'' = Some ''S2''"
    by simp_all
  from a have a': "fst (map_bidi ?off ''S2'' ''D'' ?w) =
      Inl (Exception ''DST port already used in S1->D, override mapping is not allowed.'')"
    by (simp add: conflict_message_def)
  from b held have b': "mapping_set (snd (map_bidi ?off ''S2'' ''D'' ?w)) ''D'' = Some ''S1''"
    by simp
  from op held nm ne um a' b' c d show ?thesis by blast
qed

text \<open>
  The claim as written constrains neither \<open>src2\<close> nor the form of \<open>src1\<close>.  An
  exception-marked \<open>src2\<close> makes \<open>map_bidi(src2, dst)\<close> raise the marker text under
  both settings, and an empty stored value is never a conflict: with override disabled
  \<open>map_uni\<close> overwrites it.
\<close>

theorem override_policy_counterexample:
  "map_bidi \<lparr>delay_min = 0, delay_max = 0, override_mapping = False\<rparr> ''S2'' ''D''
       \<lparr>mappings_file = Stored [(''D'', ''S1''), (''S2'', ''except: down'')], lock_usable = True\<rparr>
     = (Inl (Exception ''except: down''),
        \<lparr>mappings_file = Stored [(''D'', ''S1''), (''S2'', ''except: down'')], lock_usable = True\<rparr>)
   \<and> map_bidi \<lparr>delay_min = 0, delay_max = 0, override_mapping = True\<rparr> ''S2'' ''D''
       \<lparr>mappings_file = Stored [(''D'', ''S1''), (''S2'', ''except: down'')], lock_usable = True\<rparr>
     = (Inl (Exception ''except: down''),
        \<lparr>mappings_file = Stored [(''D'', ''S1''), (''S2'', ''except: down'')], lock_usable = True\<rparr>)
   \<and> map_uni \<lparr>delay_min = 0, delay_max = 0, override_mapping = False\<rparr> ''S2'' [''D'']
       \<lparr>mappings_file = Stored [(''D'', [])], lock_usable = True\<rparr>
     = (Inr (), \<lparr>mappings_file = Stored [(''D'', ''S2'')], lock_usable = True\<rparr>)"
  by code_simp

text \<open>
  C4. When neither address contains the marker word, \<open>map_bidi(src, dst)\<close> is
  idempotent: invoked again on the store the first invocation left (in whatever order
  the file lists its entries), it returns what the first returned and leaves the
  Mapping Set as it found it.  When the first invocation succeeds the store holds
  \<open>src -> dst\<close> and \<open>dst -> src\<close>; with override enabled and neither port
  exception-marked it always succeeds.
\<close>

theorem map_bidi_idempotent:
  assumes "operational cfg w" and "\<not> has_marker src" and "\<not> has_marker dst"
  shows "(\<forall>w1. operational cfg w1
              \<and> mapping_set w1 = mapping_set (snd (map_bidi cfg src dst w)) \<longrightarrow>
            fst (map_bidi cfg src dst w1) = fst (map_bidi cfg src dst w)
          \<and> mapping_set (snd (map_bidi cfg src dst w1)) = mapping_set w1)
       \<and> (fst (map_bidi cfg src dst w) = Inr () \<longrightarrow>
            mapping_set (snd (map_bidi cfg src dst w)) src = Some dst
          \<and> mapping_set (snd (map_bidi cfg src dst w)) dst = Some src)
       \<and> (override_mapping cfg \<and> \<not> marked w src \<and> \<not> marked w dst \<longrightarrow>
            fst (map_bidi cfg src dst w) = Inr ())"
proof -
  define m where "m = loaded (mappings_file w)"
  define body where "body = map_bidi_body (override_mapping cfg) src dst"
  have res: "fst (map_bidi cfg src dst u) =
      (case fst (body (loaded (mappings_file u))) of Some e \<Rightarrow> Inl e | None \<Rightarrow> Inr ())"
    and store: "mapping_set (snd (map_bidi cfg src dst u)) =
      dict_get (snd (body (loaded (mappings_file u))))"
    if "operational cfg u" for u
    by (simp_all add: map_bidi_def body_def body_fst_run [OF that] body_snd_run [OF that])
  have again: "body (snd (body m)) = body m"
    unfolding body_def using assms(2,3) by (rule bidi_body_again)
  have idem: "fst (map_bidi cfg src dst w1) = fst (map_bidi cfg src dst w)
      \<and> mapping_set (snd (map_bidi cfg src dst w1)) = mapping_set w1"
    if op1: "operational cfg w1"
      and same: "mapping_set w1 = mapping_set (snd (map_bidi cfg src dst w))" for w1
  proof -
    define m1 where "m1 = loaded (mappings_file w1)"
    from same have "dict_get m1 = dict_get (snd (body m))"
      by (simp add: m1_def m_def mapping_set_get [symmetric] store [OF assms(1)])
    from bidi_body_layout [OF this, of "override_mapping cfg" src dst]
    have "fst (body m1) = fst (body m)" and "dict_get (snd (body m1)) = dict_get (snd (body m))"
      by (simp_all add: body_def [symmetric] again)
    then show ?thesis
      by (simp add: res [OF op1] res [OF assms(1)] store [OF op1] store [OF assms(1)] same
          m1_def [symmetric] m_def [symmetric])
  qed
  have entries: "mapping_set (snd (map_bidi cfg src dst w)) src = Some dst
      \<and> mapping_set (snd (map_bidi cfg src dst w)) dst = Some src"
    if "fst (map_bidi cfg src dst w) = Inr ()"
  proof -
    from that have "fst (body m) = None"
      by (simp add: res [OF assms(1)] m_def split: option.splits)
    with bidi_body_cases [of "override_mapping cfg" src dst m]
    have "snd (body m) = dict_set dst src (dict_set src dst m)"
      by (auto simp: body_def)
    then show ?thesis
      by (simp add: store [OF assms(1)] m_def [symmetric] dict_get_set)
  qed
  have succ: "fst (map_bidi cfg src dst w) = Inr ()"
    if "override_mapping cfg" and "\<not> marked w src" and "\<not> marked w dst"
  proof -
    from that(2,3) have "check_exception src m = None" and "check_exception dst m = None"
      by (auto simp: m_def marked_def mapping_set_get check_exception_eq split: option.splits)
    with that(1) have "fst (body m) = None"
      by (simp add: body_def bidi_body_ok check_mapping_exist_def)
    then show ?thesis
      by (simp add: res [OF assms(1)] m_def)
  qed
  from idem entries succ show ?thesis by blast
qed

theorem map_bidi_idempotent_witness:
  "operational \<lparr>delay_min = 0, delay_max = 0, override_mapping = False\<rparr>
     \<lparr>mappings_file = Empty, lock_usable = True\<rparr>
   \<and> \<not> has_marker ''1/1'' \<and> \<not> has_marker ''1/2''
   \<and> map_bidi \<lparr>delay_min = 0, delay_max = 0, override_mapping = False\<rparr> ''1/1'' ''1/2''
       \<lparr>mappings_file = Empty, lock_usable = True\<rparr>
     = (Inr (), \<lparr>mappings_file = Stored [(''1/1'', ''1/2''), (''1/2'', ''1/1'')],
                 lock_usable = True\<rparr>)
   \<and> fst (map_bidi \<lparr>delay_min = 0, delay_max = 0, override_mapping = False\<rparr> ''1/1'' ''1/2''
       \<lparr>mappings_file = Stored [(''1/1'', ''1/2''), (''1/2'', ''1/1'')], lock_usable = True\<rparr>)
     = Inr ()
   \<and> mapping_set (snd (map_bidi \<lparr>delay_min = 0, delay_max = 0, override_mapping = False\<rparr>
       ''1/1'' ''1/2''
       \<lparr>mappings_file = Stored [(''1/1'', ''1/2''), (''1/2'', ''1/1'')], lock_usable = True\<rparr>))
     = mapping_set
         \<lparr>mappings_file = Stored [(''1/1'', ''1/2''), (''1/2'', ''1/1'')], lock_usable = True\<rparr>"
proof -
  let ?cfg = "\<lparr>delay_min = 0, delay_max = 0, override_mapping = False\<rparr>"
  let ?w = "\<lparr>mappings_file = Empty, lock_usable = True\<rparr>"
  let ?w1 = "\<lparr>mappings_file = Stored [(''1/1'', ''1/2''), (''1/2'', ''1/1'')], lock_usable = True\<rparr>"
  have op: "operational ?cfg ?w" and op1: "operational ?cfg ?w1"
    by (simp_all add: operational_def)
  have n1: "\<not> has_marker ''1/1''" and n2: "\<not> has_marker ''1/2''"
    by (simp_all add: has_marker_def EXCEPTION_def lower_def lower_char_def)
  have first: "map_bidi ?cfg ''1/1'' ''1/2'' ?w = (Inr (), ?w1)"
    by (simp add: map_bidi_def command_def delay_def with_trans_def trans_enter_def
        enter_try_def trans_exit_def map_bidi_body_def check_exception_def
        check_mapping_exist_def dict_get_def)
  from map_bidi_idempotent [OF op n1 n2] op1
  have "fst (map_bidi ?cfg ''1/1'' ''1/2'' ?w1) = fst (map_bidi ?cfg ''1/1'' ''1/2'' ?w)
      \<and> mapping_set (snd (map_bidi ?cfg ''1/1'' ''1/2'' ?w1)) = mapping_set ?w1"
    by (simp add: first)
  then have second: "fst (map_bidi ?cfg ''1/1'' ''1/2'' ?w1) = Inr ()"
    and third: "mapping_set (snd (map_bidi ?cfg ''1/1'' ''1/2'' ?w1)) = mapping_set ?w1"
    by (simp_all add: first)
  from op n1 n2 first second third show ?thesis by blast
qed

text \<open>
  The claim as written asks only that the two ports are not exception-marked.  After
  the first invocation \<open>A\<close> holds the peer address \<open>Except-1\<close>, which the exception
  check takes for a marker: the second invocation raises.
\<close>

theorem map_bidi_idempotent_counterexample:
  "\<not> marked \<lparr>mappings_file = Missing, lock_usable = True\<rparr> ''A''
   \<and> \<not> marked \<lparr>mappings_file = Missing, lock_usable = True\<rparr> ''Except-1''
   \<and> map_bidi \<lparr>delay_min = 0, delay_max = 0, override_mapping = True\<rparr> ''A'' ''Except-1''
       \<lparr>mappings_file = Missing, lock_usable = True\<rparr>
     = (Inr (), \<lparr>mappings_file = Stored [(''A'', ''Except-1''), (''Except-1'', ''A'')],
                 lock_usable = True\<rparr>)
   \<and> map_bidi \<lparr>delay_min = 0, delay_max = 0, override_mapping = True\<rparr> ''A'' ''Except-1''
       \<lparr>mappings_file = Stored [(''A'', ''Except-1''), (''Except-1'', ''A'')], lock_usable = True\<rparr>
     = (Inl (Exception ''Except-1''),
        \<lparr>mappings_file = Stored [(''A'', ''Except-1''), (''Except-1'', ''A'')],
          lock_usable = True\<rparr>)"
  by code_simp

text \<open>
  C5. A transaction opened on a mappings file that does not exist, holds no document or
  does not parse gets the empty dictionary from \<open>__enter__\<close>, whatever the \<open>try\<close>
  block raised; a connect command on such a file does exactly what it does on a file
  holding the empty dictionary, and \<open>map_bidi(src, dst)\<close> succeeds and stores the two
  entries alone.
\<close>

theorem tolerant_read:
  assumes "mappings_file w \<in> {Missing, Empty, Malformed}"
  shows "trans_enter w = []
       \<and> (operational cfg w \<longrightarrow>
            map_bidi cfg src dst w = map_bidi cfg src dst (w\<lparr>mappings_file := Stored []\<rparr>)
          \<and> map_uni cfg src dsts w = map_uni cfg src dsts (w\<lparr>mappings_file := Stored []\<rparr>)
          \<and> fst (map_bidi cfg src dst w) = Inr ()
          \<and> mapping_set (snd (map_bidi cfg src dst w)) = [src \<mapsto> dst, dst \<mapsto> src])"
proof -
  have enter: "trans_enter w = []"
    using assms by (auto simp: trans_enter_def enter_try_def)
  have enter': "trans_enter (w\<lparr>mappings_file := Stored []\<rparr>) = []"
    by (simp add: trans_enter_def enter_try_def)
  have cmd: "command cfg body w = command cfg body (w\<lparr>mappings_file := Stored []\<rparr>)"
    if "operational cfg w" for body
    using that
    by (simp add: command_def with_trans_def trans_exit_def enter enter' operational_def
        delay_def split: option.splits prod.splits)
  have run: "map_bidi cfg src dst w =
      (Inr (), w\<lparr>mappings_file := Stored (dict_set dst src [(src, dst)])\<rparr>)"
    if "operational cfg w"
    using that
    by (simp add: map_bidi_def command_def with_trans_def trans_exit_def enter delay_def
        operational_def map_bidi_body_def check_exception_def check_mapping_exist_def
        dict_get_def)
  have "dict_get (dict_set dst src [(src, dst)]) = [src \<mapsto> dst, dst \<mapsto> src]"
    by (rule ext) (simp add: dict_get_set dict_get_def)
  with run have res: "fst (map_bidi cfg src dst w) = Inr ()
      \<and> mapping_set (snd (map_bidi cfg src dst w)) = [src \<mapsto> dst, dst \<mapsto> src]"
    if "operational cfg w"
    using that by simp
  from enter cmd res show ?thesis
    by (simp add: map_bidi_def map_uni_def)
qed

theorem tolerant_read_witness:
  "mappings_file \<lparr>mappings_file = Malformed, lock_usable = True\<rparr> \<in> {Missing, Empty, Malformed}
   \<and> trans_enter \<lparr>mappings_file = Malformed, lock_usable = True\<rparr> = []
   \<and> fst (map_bidi \<lparr>delay_min = 0, delay_max = 2, override_mapping = False\<rparr> ''1/1'' ''1/2''
       \<lparr>mappings_file = Malformed, lock_usable = True\<rparr>) = Inr ()
   \<and> mapping_set (snd (map_bidi \<lparr>delay_min = 0, delay_max = 2, override_mapping = False\<rparr>
       ''1/1'' ''1/2'' \<lparr>mappings_file = Malformed, lock_usable = True\<rparr>))
     = [''1/1'' \<mapsto> ''1/2'', ''1/2'' \<mapsto> ''1/1'']"
proof -
  let ?cfg = "\<lparr>delay_min = 0, delay_max = 2, override_mapping = False\<rparr>"
  let ?w = "\<lparr>mappings_file = Malformed, lock_usable = True\<rparr>"
  have h: "mappings_file ?w \<in> {Missing, Empty, Malformed}"
    by simp
  have op: "operational ?cfg ?w"
    by (simp add: operational_def)
  note t = tolerant_read [OF h, where cfg = ?cfg and src = "''1/1''" and dst = "''1/2''"
      and dsts = "[]"]
  from t have a: "trans_enter ?w = []"
    by (rule conjunct1)
  from t op have b: "fst (map_bidi ?cfg ''1/1'' ''1/2'' ?w) = Inr ()"
    and c: "mapping_set (snd (map_bidi ?cfg ''1/1'' ''1/2'' ?w)) =
      [''1/1'' \<mapsto> ''1/2'', ''1/2'' \<mapsto> ''1/1'']"
    by blast+
  from h a b c show ?thesis by blast
qed

text \<open>
  C6. From the empty Mapping Set, \<open>map_uni("A", ["B", "C"])\<close> succeeds and leaves the
  store equal to \<open>{B -> A, C -> A}\<close>; on a store holding exactly these two entries
  \<open>map_clear(["A"])\<close> succeeds and leaves the store empty.  In general, after a
  \<open>map_clear(ports)\<close> that succeeds no entry has a key or a value in \<open>ports\<close>, and
  the entries with neither are kept.
\<close>

theorem uni_then_clear:
  assumes "operational cfg w" and "loaded (mappings_file w) = []"
  shows "fst (map_uni cfg ''A'' [''B'', ''C''] w) = Inr ()
       \<and> mapping_set (snd (map_uni cfg ''A'' [''B'', ''C''] w)) = [''B'' \<mapsto> ''A'', ''C'' \<mapsto> ''A'']
       \<and> (\<forall>w1. operational cfg w1 \<and> mapping_set w1 = [''B'' \<mapsto> ''A'', ''C'' \<mapsto> ''A''] \<longrightarrow>
            fst (map_clear cfg [''A''] w1) = Inr ()
          \<and> mapping_set (snd (map_clear cfg [''A''] w1)) = Map.empty)
       \<and> (\<forall>ports u. operational cfg u \<and> wf_mappings (loaded (mappings_file u))
              \<and> fst (map_clear cfg ports u) = Inr () \<longrightarrow>
            (\<forall>k. mapping_set (snd (map_clear cfg ports u)) k =
               (case mapping_set u k of
                  None \<Rightarrow> None
                | Some v \<Rightarrow> if k \<in> set ports \<or> v \<in> set ports then None else Some v)))"
proof -
  have uni: "map_uni_body (override_mapping cfg) ''A'' [''B'', ''C''] [] =
      (None, [(''B'', ''A''), (''C'', ''A'')])"
    by (simp add: map_uni_body_def check_exception_def check_mapping_exist_def dict_get_def)
  have first: "fst (map_uni cfg ''A'' [''B'', ''C''] w) = Inr ()"
    by (simp add: map_uni_def body_fst_run [OF assms(1)] assms(2) uni)
  have stored: "mapping_set (snd (map_uni cfg ''A'' [''B'', ''C''] w)) =
      [''B'' \<mapsto> ''A'', ''C'' \<mapsto> ''A'']"
    by (rule ext) (simp add: map_uni_def body_snd_run [OF assms(1)] assms(2) uni dict_get_def)
  have second: "fst (map_clear cfg [''A''] w1) = Inr ()
      \<and> mapping_set (snd (map_clear cfg [''A''] w1)) = Map.empty"
    if op1: "operational cfg w1" and two: "mapping_set w1 = [''B'' \<mapsto> ''A'', ''C'' \<mapsto> ''A'']"
    for w1
  proof -
    define m1 where "m1 = loaded (mappings_file w1)"
    from two have get: "dict_get m1 = [''B'' \<mapsto> ''A'', ''C'' \<mapsto> ''A'']"
      by (simp add: m1_def mapping_set_get)
    have plain: "\<not> has_marker ''A''"
      by (simp add: has_marker_def EXCEPTION_def lower_def lower_char_def)
    have vals: "v = ''A''" if "dict_get m1 k = Some v" for k v
      using that by (auto simp: get split: if_splits)
    have ok: "fst (map_clear_body [''A''] m1) = None"
      by (rule clear_unmarked) (use vals plain in blast)
    have "dict_get (snd (map_clear_body [''A''] m1)) k = None" for k
    proof (cases "dict_get (snd (map_clear_body [''A''] m1)) k")
      case None
      then show ?thesis .
    next
      case (Some v)
      from clear_removes [OF ok Some] vals [of k v] show ?thesis by simp
    qed
    then have "dict_get (snd (map_clear_body [''A''] m1)) = Map.empty"
      by (rule ext)
    with ok show ?thesis
      by (simp add: map_clear_def body_fst_run [OF op1] body_snd_run [OF op1]
          m1_def [symmetric])
  qed
  have general: "mapping_set (snd (map_clear cfg ports u)) k =
      (case mapping_set u k of
         None \<Rightarrow> None
       | Some v \<Rightarrow> if k \<in> set ports \<or> v \<in> set ports then None else Some v)"
    if op: "operational cfg u" and wf: "wf_mappings (loaded (mappings_file u))"
      and ok: "fst (map_clear cfg ports u) = Inr ()" for ports u k
  proof -
    define m where "m = loaded (mappings_file u)"
    from ok have none: "fst (map_clear_body ports m) = None"
      by (simp add: map_clear_def body_fst_run [OF op] m_def split: option.splits)
    have "mapping_set (snd (map_clear cfg ports u)) k = dict_get (snd (map_clear_body ports m)) k"
      by (simp add: map_clear_def body_snd_run [OF op] m_def)
    also have "\<dots> = (if k \<in> set (clear_keys ports m) then None else dict_get m k)"
      using none by (rule map_clear_body_done)
    also have "\<dots> = (case dict_get m k of
         None \<Rightarrow> None
       | Some v \<Rightarrow> if k \<in> set ports \<or> v \<in> set ports then None else Some v)"
    proof (cases "dict_get m k")
      case None
      then show ?thesis by simp
    next
      case (Some v)
      then have "(k, v') \<in> set m \<longleftrightarrow> v' = v" for v'
        using wf dict_items_get [of m k v'] dict_get_items [of m k v]
        by (auto simp: m_def)
      then have "k \<in> set (clear_keys ports m) \<longleftrightarrow> v \<in> set ports \<or> k \<in> set ports"
        by (auto simp: clear_keys_iff)
      with Some show ?thesis by auto
    qed
    finally show ?thesis by (simp add: m_def mapping_set_get)
  qed
  from first stored second general show ?thesis by blast
qed

theorem uni_then_clear_witness:
  "operational \<lparr>delay_min = 0, delay_max = 0, override_mapping = True\<rparr>
     \<lparr>mappings_file = Missing, lock_usable = True\<rparr>
   \<and> loaded (mappings_file \<lparr>mappings_file = Missing, lock_usable = True\<rparr>) = []
   \<and> map_uni \<lparr>delay_min = 0, delay_max = 0, override_mapping = True\<rparr> ''A'' [''B'', ''C'']
       \<lparr>mappings_file = Missing, lock_usable = True\<rparr>
     = (Inr (), \<lparr>mappings_file = Stored [(''B'', ''A''), (''C'', ''A'')], lock_usable = True\<rparr>)
   \<and> fst (map_clear \<lparr>delay_min = 0, delay_max = 0, override_mapping = True\<rparr> [''A'']
       \<lparr>mappings_file = Stored [(''B'', ''A''), (''C'', ''A'')], lock_usable = True\<rparr>) = Inr ()
   \<and> mapping_set (snd (map_clear \<lparr>delay_min = 0, delay_max = 0, override_mapping = True\<rparr>
       [''A''] \<lparr>mappings_file = Stored [(''B'', ''A''), (''C'', ''A'')], lock_usable = True\<rparr>))
     = Map.empty"
proof -
  let ?cfg = "\<lparr>delay_min = 0, delay_max = 0, override_mapping = True\<rparr>"
  let ?w = "\<lparr>mappings_file = Missing, lock_usable = True\<rparr>"
  let ?w1 = "\<lparr>mappings_file = Stored [(''B'', ''A''), (''C'', ''A'')], lock_usable = True\<rparr>"
  have op: "operational ?cfg ?w" and op1: "operational ?cfg ?w1"
    by (simp_all add: operational_def)
  have emp: "loaded (mappings_file ?w) = []"
    by (simp add: loaded_def)
  have run: "map_uni ?cfg ''A'' [''B'', ''C''] ?w = (Inr (), ?w1)"
    by (simp add: map_uni_def command_def delay_def with_trans_def trans_enter_def
        enter_try_def trans_exit_def map_uni_body_def check_exception_def
        check_mapping_exist_def dict_get_def)
  have two: "mapping_set ?w1 = [''B'' \<mapsto> ''A'', ''C'' \<mapsto> ''A'']"
    by (rule ext) (simp add: mapping_set_def)
  from uni_then_clear [OF op emp] op1 two
  have "fst (map_clear ?cfg [''A''] ?w1) = Inr ()
      \<and> mapping_set (snd (map_clear ?cfg [''A''] ?w1)) = Map.empty"
    by blast
  with op emp run show ?thesis by blast
qed

text \<open>
  C7. When \<open>src\<close> is not exception-marked and its own address does not contain the
  marker word, \<open>map_clear_to(src, dsts)\<close> succeeds, removes exactly the keys in
  \<open>dsts\<close> whose stored value is \<open>src\<close>, and leaves every other key as it was.
\<close>

theorem map_clear_to_frame:
  assumes "operational cfg w" and "\<not> marked w src" and "\<not> has_marker src"
  shows "fst (map_clear_to cfg src dsts w) = Inr ()
       \<and> (\<forall>k. mapping_set (snd (map_clear_to cfg src dsts w)) k =
              (if k \<in> set dsts \<and> mapping_set w k = Some src then None else mapping_set w k))"
proof -
  define m where "m = loaded (mappings_file w)"
  define act where "act = filter (\<lambda>d. dict_get m d = Some src) dsts"
  from assms(2) have chk: "check_exception src m = None"
    by (auto simp: m_def marked_def mapping_set_get check_exception_eq split: option.splits)
  have ok: "fst (del_mappings act m) = None"
    by (rule del_unmarked) (use assms(3) in \<open>auto simp: act_def\<close>)
  then have res: "snd (del_mappings act m) = filter (\<lambda>(k, v). k \<notin> set act) m"
    by (rule del_done)
  have body: "map_clear_to_body src dsts m = (None, filter (\<lambda>(k, v). k \<notin> set act) m)"
    using chk ok res by (simp add: map_clear_to_body_def act_def prod_eq_iff)
  have run: "map_clear_to cfg src dsts w =
      (Inr (), w\<lparr>mappings_file := Stored (filter (\<lambda>(k, v). k \<notin> set act) m)\<rparr>)"
    using body by (simp add: map_clear_to_def command_operational [OF assms(1)] m_def)
  have look: "dict_get (filter (\<lambda>(k, v). k \<notin> set act) m) k =
      (if k \<in> set act then None else dict_get m k)" for k
    by (rule dict_get_filter_keys)
  have mem: "k \<in> set act \<longleftrightarrow> k \<in> set dsts \<and> mapping_set w k = Some src" for k
    by (auto simp: act_def m_def mapping_set_get)
  have "mapping_set (snd (map_clear_to cfg src dsts w)) k =
      (if k \<in> set dsts \<and> mapping_set w k = Some src then None else mapping_set w k)" for k
  proof -
    have "mapping_set (snd (map_clear_to cfg src dsts w)) k =
        dict_get (filter (\<lambda>(k, v). k \<notin> set act) m) k"
      by (simp add: run)
    also have "\<dots> = (if k \<in> set act then None else dict_get m k)"
      by (rule look)
    also have "\<dots> = (if k \<in> set dsts \<and> mapping_set w k = Some src then None
        else mapping_set w k)"
      by (simp add: mem) (simp add: m_def mapping_set_get)
    finally show ?thesis .
  qed
  with run show ?thesis by simp
qed

theorem map_clear_to_frame_witness:
  "operational \<lparr>delay_min = 1, delay_max = 3, override_mapping = True\<rparr>
     \<lparr>mappings_file = Stored [(''B'', ''A''), (''C'', ''A''), (''D'', ''E'')], lock_usable = True\<rparr>
   \<and> \<not> marked \<lparr>mappings_file = Stored [(''B'', ''A''), (''C'', ''A''), (''D'', ''E'')],
                lock_usable = True\<rparr> ''A''
   \<and> \<not> has_marker ''A''
   \<and> fst (map_clear_to \<lparr>delay_min = 1, delay_max = 3, override_mapping = True\<rparr> ''A''
        [''B'', ''D'', ''F'']
        \<lparr>mappings_file = Stored [(''B'', ''A''), (''C'', ''A''), (''D'', ''E'')],
           lock_usable = True\<rparr>) = Inr ()
   \<and> mapping_set (snd (map_clear_to \<lparr>delay_min = 1, delay_max = 3, override_mapping = True\<rparr>
        ''A'' [''B'', ''D'', ''F'']
        \<lparr>mappings_file = Stored [(''B'', ''A''), (''C'', ''A''), (''D'', ''E'')],
           lock_usable = True\<rparr>)) ''B'' = None
   \<and> mapping_set (snd (map_clear_to \<lparr>delay_min = 1, delay_max = 3, override_mapping = True\<rparr>
        ''A'' [''B'', ''D'', ''F'']
        \<lparr>mappings_file = Stored [(''B'', ''A''), (''C'', ''A''), (''D'', ''E'')],
           lock_usable = True\<rparr>)) ''D'' = Some ''E''"
proof -
  let ?cfg = "\<lparr>delay_min = 1, delay_max = 3, override_mapping = True\<rparr>"
  let ?w = "\<lparr>mappings_file = Stored [(''B'', ''A''), (''C'', ''A''), (''D'', ''E'')],
     lock_usable = True\<rparr>"
  have op: "operational ?cfg ?w"
    by (simp add: operational_def)
  have um: "\<not> marked ?w ''A''"
    by (simp add: marked_def mapping_set_def)
  have nm: "\<not> has_marker ''A''"
    by (simp add: has_marker_def EXCEPTION_def lower_def lower_char_def)
  note t = map_clear_to_frame [OF op um nm, of "[''B'', ''D'', ''F'']"]
  from t have r: "fst (map_clear_to ?cfg ''A'' [''B'', ''D'', ''F''] ?w) = Inr ()"
    by (rule conjunct1)
  from t have f: "mapping_set (snd (map_clear_to ?cfg ''A'' [''B'', ''D'', ''F''] ?w)) k =
      (if k \<in> set [''B'', ''D'', ''F''] \<and> mapping_set ?w k = Some ''A'' then None
       else mapping_set ?w k)" for k
    by blast
  have b: "mapping_set (snd (map_clear_to ?cfg ''A'' [''B'', ''D'', ''F''] ?w)) ''B'' = None"
    using f [of "''B''"] by (simp add: mapping_set_def)
  have d: "mapping_set (snd (map_clear_to ?cfg ''A'' [''B'', ''D'', ''F''] ?w)) ''D'' = Some ''E''"
    using f [of "''D''"] by (simp add: mapping_set_def)
  from op um nm r b d show ?thesis by blast
qed

text \<open>
  The claim as written asks only that \<open>src\<close> is not exception-marked.  A source whose
  address contains the marker word makes each destination that points to it fail the
  exception check of \<open>_del_mappings\<close>: here \<open>D\<close> is not removed.
\<close>

theorem map_clear_to_frame_counterexample:
  "\<not> marked \<lparr>mappings_file = Stored [(''D'', ''Except-7'')], lock_usable = True\<rparr> ''Except-7''
   \<and> map_clear_to \<lparr>delay_min = 0, delay_max = 0, override_mapping = True\<rparr> ''Except-7'' [''D'']
       \<lparr>mappings_file = Stored [(''D'', ''Except-7'')], lock_usable = True\<rparr>
     = (Inl (Exception ''Except-7''),
        \<lparr>mappings_file = Stored [(''D'', ''Except-7'')], lock_usable = True\<rparr>)"
  by code_simp

text \<open>
  C8. \<open>map_tap\<close> is \<open>map_uni\<close>: for every configuration, source port, destination
  list and world, both give the same result (the same exception or the same normal
  return) and leave the same world.
\<close>

theorem map_tap_is_map_uni:
  "map_tap cfg src_port dst_ports w = map_uni cfg src_port dst_ports w"
  by (simp add: map_tap_def)

text \<open>
  C9. The exception check on \<open>p\<close> raises exactly when the dictionary holds for \<open>p\<close> a
  non-empty value whose lower-cased form contains \<open>except\<close>, and it raises that value,
  whatever the value stands for.  A successful \<open>map_bidi(X, D)\<close> stores \<open>X -> D\<close>;
  so when the word is in the address \<open>D\<close>, on the store it leaves: \<open>map_bidi\<close> naming
  \<open>X\<close>, \<open>map_uni\<close>, \<open>map_tap\<close> and \<open>map_clear_to\<close> with source \<open>X\<close>, and
  \<open>map_clear\<close> naming \<open>X\<close> raise an exception-port error; \<open>map_uni\<close> with \<open>X\<close>
  among the destinations fails, with an exception-port error when override is enabled;
  \<open>map_clear_to\<close> with \<open>X\<close> among the destinations raises one when its source is
  \<open>D\<close>.
\<close>

theorem exception_check_on_any_value:
  "check_exception p m =
     (case map_of m p of
        None \<Rightarrow> None
      | Some v \<Rightarrow>
          if v \<noteq> [] \<and> (\<exists>pre post. lower v = pre @ ''except'' @ post)
          then Some (Exception v) else None)
   \<and> (operational cfg w \<and> fst (map_bidi cfg X D w) = Inr () \<longrightarrow>
        mapping_set (snd (map_bidi cfg X D w)) X = Some D)
   \<and> (operational cfg w1 \<and> mapping_set w1 X = Some D
        \<and> (\<exists>pre post. lower D = pre @ ''except'' @ post) \<longrightarrow>
        fst (map_bidi cfg X Y w1) = Inl (Exception D)
      \<and> (\<exists>t. fst (map_bidi cfg Y X w1) = Inl (Exception t) \<and> has_marker t)
      \<and> fst (map_uni cfg X dsts w1) = Inl (Exception D)
      \<and> fst (map_tap cfg X dsts w1) = Inl (Exception D)
      \<and> fst (map_clear_to cfg X dsts w1) = Inl (Exception D)
      \<and> (X \<in> set ports \<longrightarrow>
           (\<exists>t. fst (map_clear cfg ports w1) = Inl (Exception t) \<and> has_marker t))
      \<and> (X \<in> set dsts \<longrightarrow>
           (\<exists>e. fst (map_uni cfg Y dsts w1) = Inl e)
         \<and> (override_mapping cfg \<longrightarrow>
              (\<exists>t. fst (map_uni cfg Y dsts w1) = Inl (Exception t) \<and> has_marker t))
         \<and> (\<exists>t. fst (map_clear_to cfg D dsts w1) = Inl (Exception t) \<and> has_marker t)))"
proof -
  have check: "check_exception p m =
     (case map_of m p of
        None \<Rightarrow> None
      | Some v \<Rightarrow>
          if v \<noteq> [] \<and> (\<exists>pre post. lower v = pre @ ''except'' @ post)
          then Some (Exception v) else None)"
    by (auto simp: check_exception_def dict_get_def EXCEPTION_def str_in_iff
        split: option.splits)
  have stores: "mapping_set (snd (map_bidi cfg X D w)) X = Some D"
    if op: "operational cfg w" and first: "fst (map_bidi cfg X D w) = Inr ()"
  proof -
    define m0 where "m0 = loaded (mappings_file w)"
    from first have "fst (map_bidi_body (override_mapping cfg) X D m0) = None"
      by (simp add: map_bidi_def body_fst_run [OF op] m0_def split: option.splits)
    with bidi_body_cases [of "override_mapping cfg" X D m0]
    have "snd (map_bidi_body (override_mapping cfg) X D m0) = dict_set D X (dict_set X D m0)"
      by auto
    then show ?thesis
      by (simp add: map_bidi_def body_snd_run [OF op] m0_def [symmetric] dict_get_set)
  qed
  have later: "fst (map_bidi cfg X Y w1) = Inl (Exception D)
      \<and> (\<exists>t. fst (map_bidi cfg Y X w1) = Inl (Exception t) \<and> has_marker t)
      \<and> fst (map_uni cfg X dsts w1) = Inl (Exception D)
      \<and> fst (map_tap cfg X dsts w1) = Inl (Exception D)
      \<and> fst (map_clear_to cfg X dsts w1) = Inl (Exception D)
      \<and> (X \<in> set ports \<longrightarrow>
           (\<exists>t. fst (map_clear cfg ports w1) = Inl (Exception t) \<and> has_marker t))
      \<and> (X \<in> set dsts \<longrightarrow>
           (\<exists>e. fst (map_uni cfg Y dsts w1) = Inl e)
         \<and> (override_mapping cfg \<longrightarrow>
              (\<exists>t. fst (map_uni cfg Y dsts w1) = Inl (Exception t) \<and> has_marker t))
         \<and> (\<exists>t. fst (map_clear_to cfg D dsts w1) = Inl (Exception t) \<and> has_marker t))"
    if op1: "operational cfg w1" and held: "mapping_set w1 X = Some D"
      and word: "\<exists>pre post. lower D = pre @ ''except'' @ post"
  proof -
    from word have mk: "has_marker D"
      by (simp add: has_marker_iff)
    note facts = op1 held mk
    from blocked_bidi_src [OF facts, of Y]
    have a: "fst (map_bidi cfg X Y w1) = Inl (Exception D)" by simp
    from blocked_bidi_dst [OF facts, of Y]
    have b: "\<exists>t. fst (map_bidi cfg Y X w1) = Inl (Exception t) \<and> has_marker t" by auto
    from blocked_uni_src [OF facts, of dsts]
    have c: "fst (map_uni cfg X dsts w1) = Inl (Exception D)" by simp
    from blocked_clear_to_src [OF facts, of dsts]
    have d: "fst (map_clear_to cfg X dsts w1) = Inl (Exception D)" by simp
    have e: "\<exists>t. fst (map_clear cfg ports w1) = Inl (Exception t) \<and> has_marker t"
      if "X \<in> set ports"
      using blocked_clear [OF facts that] by blast
    have f: "(\<exists>e. fst (map_uni cfg Y dsts w1) = Inl e)
        \<and> (override_mapping cfg \<longrightarrow>
              (\<exists>t. fst (map_uni cfg Y dsts w1) = Inl (Exception t) \<and> has_marker t))
        \<and> (\<exists>t. fst (map_clear_to cfg D dsts w1) = Inl (Exception t) \<and> has_marker t)"
      if "X \<in> set dsts"
      using blocked_uni_dst [OF facts that, of Y] blocked_clear_to_dst [OF facts that]
      by blast
    from a b c d e f show ?thesis
      unfolding map_tap_def by blast
  qed
  from check stores later show ?thesis by blast
qed

theorem exception_check_on_any_value_witness:
  "operational \<lparr>delay_min = 0, delay_max = 0, override_mapping = True\<rparr>
     \<lparr>mappings_file = Missing, lock_usable = True\<rparr>
   \<and> lower ''Y-Except'' = ''y-'' @ ''except'' @ []
   \<and> map_bidi \<lparr>delay_min = 0, delay_max = 0, override_mapping = True\<rparr> ''X'' ''Y-Except''
       \<lparr>mappings_file = Missing, lock_usable = True\<rparr>
     = (Inr (), \<lparr>mappings_file = Stored [(''X'', ''Y-Except''), (''Y-Except'', ''X'')],
                 lock_usable = True\<rparr>)
   \<and> mapping_set \<lparr>mappings_file = Stored [(''X'', ''Y-Except''), (''Y-Except'', ''X'')],
        lock_usable = True\<rparr> ''X'' = Some ''Y-Except''
   \<and> fst (map_bidi \<lparr>delay_min = 0, delay_max = 0, override_mapping = True\<rparr> ''X'' ''Z''
       \<lparr>mappings_file = Stored [(''X'', ''Y-Except''), (''Y-Except'', ''X'')], lock_usable = True\<rparr>)
     = Inl (Exception ''Y-Except'')
   \<and> fst (map_clear_to \<lparr>delay_min = 0, delay_max = 0, override_mapping = True\<rparr> ''X'' [''Z'']
       \<lparr>mappings_file = Stored [(''X'', ''Y-Except''), (''Y-Except'', ''X'')], lock_usable = True\<rparr>)
     = Inl (Exception ''Y-Except'')"
proof -
  let ?cfg = "\<lparr>delay_min = 0, delay_max = 0, override_mapping = True\<rparr>"
  let ?w = "\<lparr>mappings_file = Missing, lock_usable = True\<rparr>"
  let ?w1 = "\<lparr>mappings_file = Stored [(''X'', ''Y-Except''), (''Y-Except'', ''X'')],
      lock_usable = True\<rparr>"
  have op: "operational ?cfg ?w" and op1: "operational ?cfg ?w1"
    by (simp_all add: operational_def)
  have low: "lower ''Y-Except'' = ''y-'' @ ''except'' @ []"
    by code_simp
  then have word: "\<exists>pre post. lower ''Y-Except'' = pre @ ''except'' @ post"
    by blast
  have first: "map_bidi ?cfg ''X'' ''Y-Except'' ?w = (Inr (), ?w1)"
    by code_simp
  note t = exception_check_on_any_value [where cfg = ?cfg and w = ?w and D = "''Y-Except''"
      and X = "''X''" and ?w1.0 = ?w1 and Y = "''Z''" and dsts = "[''Z'']"]
  from t op first have held: "mapping_set ?w1 ''X'' = Some ''Y-Except''"
    by simp
  from t op1 held word
  have a: "fst (map_bidi ?cfg ''X'' ''Z'' ?w1) = Inl (Exception ''Y-Except'')"
    and b: "fst (map_clear_to ?cfg ''X'' [''Z''] ?w1) = Inl (Exception ''Y-Except'')"
    by blast+
  from op low first held a b show ?thesis by blast
qed

text \<open>
  The claim as written has every later command naming \<open>X\<close> fail with an
  exception-port error.  \<open>map_clear_to("A", ["X"])\<close> selects no key and returns
  normally, and with override disabled \<open>map_uni("A", ["B", "X"])\<close> stops at \<open>B\<close> with
  the conflict message before it reaches \<open>X\<close>.
\<close>

theorem exception_check_on_any_value_counterexample:
  "map_bidi \<lparr>delay_min = 0, delay_max = 0, override_mapping = False\<rparr> ''X'' ''Y-Except''
       \<lparr>mappings_file = Stored [(''B'', ''C'')], lock_usable = True\<rparr>
     = (Inr (), \<lparr>mappings_file = Stored [(''B'', ''C''), (''X'', ''Y-Except''), (''Y-Except'', ''X'')],
                 lock_usable = True\<rparr>)
   \<and> map_clear_to \<lparr>delay_min = 0, delay_max = 0, override_mapping = False\<rparr> ''A'' [''X'']
       \<lparr>mappings_file = Stored [(''B'', ''C''), (''X'', ''Y-Except''), (''Y-Except'', ''X'')],
          lock_usable = True\<rparr>
     = (Inr (), \<lparr>mappings_file = Stored [(''B'', ''C''), (''X'', ''Y-Except''), (''Y-Except'', ''X'')],
                 lock_usable = True\<rparr>)
   \<and> map_uni \<lparr>delay_min = 0, delay_max = 0, override_mapping = False\<rparr> ''A'' [''B'', ''X'']
       \<lparr>mappings_file = Stored [(''B'', ''C''), (''X'', ''Y-Except''), (''Y-Except'', ''X'')],
          lock_usable = True\<rparr>
     = (Inl (Exception ''DST port already used in C->B, override mapping is not allowed.''),
        \<lparr>mappings_file = Stored [(''B'', ''C''), (''X'', ''Y-Except''), (''Y-Except'', ''X'')],
          lock_usable = True\<rparr>)"
  by code_simp

text \<open>
  C10. For a port \<open>p\<close> that is no key of the stored dictionary (so neither mapped nor
  exception-marked), \<open>map_bidi(p, p)\<close> succeeds under either override setting and
  adds the one entry \<open>p -> p\<close> to the Mapping Set: the self connection is one entry,
  not two.
\<close>

theorem self_bidi_single_entry:
  assumes "operational cfg w" and "mapping_set w p = None"
  shows "fst (map_bidi cfg p p w) = Inr ()
       \<and> mapping_set (snd (map_bidi cfg p p w)) = (mapping_set w)(p \<mapsto> p)
       \<and> card (dom (mapping_set (snd (map_bidi cfg p p w)))) = Suc (card (dom (mapping_set w)))"
proof -
  let ?m = "loaded (mappings_file w)"
  from assms(2) have free: "dict_get ?m p = None"
    by (simp add: mapping_set_get)
  then have once: "dict_set p p ?m = ?m @ [(p, p)]"
    by (rule dict_set_new)
  have "dict_get (?m @ [(p, p)]) p = Some p"
    using free by (simp add: dict_get_append)
  then have "dict_set p p (?m @ [(p, p)]) = ?m @ [(p, p)]"
    by (rule dict_set_same)
  with once have "dict_set p p (dict_set p p ?m) = ?m @ [(p, p)]"
    by simp
  with free have body: "map_bidi_body (override_mapping cfg) p p ?m = (None, ?m @ [(p, p)])"
    by (simp add: map_bidi_body_def check_exception_def check_mapping_exist_def)
  have res: "fst (map_bidi cfg p p w) = Inr ()"
    by (simp add: map_bidi_def body_fst_run [OF assms(1)] body)
  have "dict_get (?m @ [(p, p)]) = (mapping_set w)(p \<mapsto> p)"
    using free by (auto simp: mapping_set_get dict_get_append split: option.splits)
  then have store: "mapping_set (snd (map_bidi cfg p p w)) = (mapping_set w)(p \<mapsto> p)"
    by (simp add: map_bidi_def body_snd_run [OF assms(1)] body)
  have "finite (dom (mapping_set w))"
    by (simp add: mapping_set_def finite_dom_map_of)
  moreover from assms(2) have "p \<notin> dom (mapping_set w)"
    by auto
  ultimately have "card (dom ((mapping_set w)(p \<mapsto> p))) = Suc (card (dom (mapping_set w)))"
    by simp
  with res store show ?thesis by simp
qed

theorem self_bidi_single_entry_witness:
  "operational \<lparr>delay_min = 0, delay_max = 0, override_mapping = False\<rparr>
     \<lparr>mappings_file = Stored [(''1/1'', ''1/2'')], lock_usable = True\<rparr>
   \<and> mapping_set \<lparr>mappings_file = Stored [(''1/1'', ''1/2'')], lock_usable = True\<rparr> ''1/3'' = None
   \<and> fst (map_bidi \<lparr>delay_min = 0, delay_max = 0, override_mapping = False\<rparr> ''1/3'' ''1/3''
       \<lparr>mappings_file = Stored [(''1/1'', ''1/2'')], lock_usable = True\<rparr>) = Inr ()
   \<and> mapping_set (snd (map_bidi \<lparr>delay_min = 0, delay_max = 0, override_mapping = False\<rparr>
       ''1/3'' ''1/3'' \<lparr>mappings_file = Stored [(''1/1'', ''1/2'')], lock_usable = True\<rparr>))
     = [''1/1'' \<mapsto> ''1/2'', ''1/3'' \<mapsto> ''1/3'']"
proof -
  let ?cfg = "\<lparr>delay_min = 0, delay_max = 0, override_mapping = False\<rparr>"
  let ?w = "\<lparr>mappings_file = Stored [(''1/1'', ''1/2'')], lock_usable = True\<rparr>"
  have op: "operational ?cfg ?w"
    by (simp add: operational_def)
  have free: "mapping_set ?w ''1/3'' = None"
    by (simp add: mapping_set_def)
  have before: "mapping_set ?w = [''1/1'' \<mapsto> ''1/2'']"
    by (rule ext) (simp add: mapping_set_def)
  from self_bidi_single_entry [OF op free]
  have a: "fst (map_bidi ?cfg ''1/3'' ''1/3'' ?w) = Inr ()"
    and b: "mapping_set (snd (map_bidi ?cfg ''1/3'' ''1/3'' ?w)) =
      (mapping_set ?w)(''1/3'' \<mapsto> ''1/3'')"
    by simp_all
  from b have b': "mapping_set (snd (map_bidi ?cfg ''1/3'' ''1/3'' ?w)) =
      [''1/1'' \<mapsto> ''1/2'', ''1/3'' \<mapsto> ''1/3'']"
    by (simp only: before)
  from op free a b' show ?thesis by blast
qed

end
